theory Spec2Isabelle
  imports Main
begin

section \<open>The path-sanitizing join of cobraman (internal/tests/fjoin)\<close>

text \<open>
  \<^verbatim>\<open>fjoin.Join(parts ...string) (string, error)\<close> cleans every non-empty part with
  \<^verbatim>\<open>filepath.Clean\<close>, splits it on \<^verbatim>\<open>"/"\<close>, passes every non-empty element through
  \<^verbatim>\<open>filenamify.Filenamify\<close> with the replacement \<^verbatim>\<open>"_"\<close>, joins the results with
  \<^verbatim>\<open>filepath.Join\<close> and puts one separator in front when the first part is absolute.

  Go strings are byte sequences; they are modelled as \<open>string\<close> (a list of 8-bit
  characters). The functions of package \<^verbatim>\<open>path/filepath\<close> are the ones of a Unix target,
  where the separator is \<^verbatim>\<open>'/'\<close> and there is no volume name; \<open>Join\<close> itself splits on
  the literal \<^verbatim>\<open>"/"\<close>.
\<close>

subsection \<open>Go standard library: strings and path/filepath\<close>

definition Separator :: char where
  "Separator = CHR ''/''"

text \<open>\<^verbatim>\<open>filepath.IsAbs\<close> on Unix: \<^verbatim>\<open>strings.HasPrefix(path, "/")\<close>.\<close>

definition IsAbs :: "string \<Rightarrow> bool" where
  "IsAbs path = (case path of [] \<Rightarrow> False | c # _ \<Rightarrow> c = Separator)"

text \<open>
  \<^verbatim>\<open>strings.Split(s, "/")\<close>: the substrings between the separators, one more than there
  are separators; the empty string gives one empty substring.
\<close>

primrec Split :: "string \<Rightarrow> string list" where
  "Split [] = [[]]"
| "Split (c # cs) =
     (if c = Separator then [] # Split cs
      else (c # hd (Split cs)) # tl (Split cs))"

text \<open>\<^verbatim>\<open>strings.Join(elems, "/")\<close>.\<close>

fun strings_Join :: "string list \<Rightarrow> string" where
  "strings_Join [] = []"
| "strings_Join [e] = e"
| "strings_Join (e # es) = e @ Separator # strings_Join es"

text \<open>
  \<^verbatim>\<open>filepath.Clean\<close>, at the level of path elements. The library walks the path once and
  writes the elements it keeps to a buffer: an empty element and \<^verbatim>\<open>.\<close> are dropped;
  \<^verbatim>\<open>..\<close> removes the last element written unless there is none to remove (the buffer
  is empty or ends with a \<^verbatim>\<open>..\<close> that was kept), in which case a rooted path drops
  it and a relative path keeps it. \<open>out\<close> is the buffer, last element first.
\<close>

fun clean_elems :: "bool \<Rightarrow> string list \<Rightarrow> string list \<Rightarrow> string list" where
  "clean_elems rooted out [] = rev out"
| "clean_elems rooted out (e # es) =
     (if e = [] \<or> e = ''.'' then clean_elems rooted out es
      else if e = ''..'' then
        (case out of
           [] \<Rightarrow> if rooted then clean_elems rooted [] es
                 else clean_elems rooted [''..''] es
         | t # out' \<Rightarrow> if t = ''..'' then clean_elems rooted (''..'' # out) es
                       else clean_elems rooted out' es)
      else clean_elems rooted (e # out) es)"

definition Clean :: "string \<Rightarrow> string" where
  "Clean path =
     (if path = [] then ''.''
      else let rooted = IsAbs path;
               out = clean_elems rooted [] (Split path)
           in if rooted then Separator # strings_Join out
              else if out = [] then ''.''
              else strings_Join out)"

text \<open>
  \<^verbatim>\<open>filepath.Join\<close> on Unix: the elements from the first non-empty one on are joined
  with the separator and the result is cleaned; with no non-empty element the result
  is the empty string.
\<close>

definition filepath_Join :: "string list \<Rightarrow> string" where
  "filepath_Join elem =
     (case dropWhile (\<lambda>e. e = []) elem of
        [] \<Rightarrow> []
      | e # es \<Rightarrow> Clean (strings_Join (e # es)))"

subsection \<open>The sanitizer\<close>

text \<open>The error value a sanitizer may return, with its message.\<close>

datatype error = SanitizationError string

text \<open>
  Modelled from the spec: the set of unsafe characters. The sanitizer is the function
  \<^verbatim>\<open>Filenamify\<close> of the external package \<^verbatim>\<open>github.com/flytam/filenamify\<close>, whose code
  is not part of the repository. The spec names \<^verbatim>\<open><\<close> and \<^verbatim>\<open>>\<close> "and other
  reserved/control characters", those "not permitted in a filesystem component name on
  the strictest common target platform": the reserved characters
  \<^verbatim>\<open>< > : " / \ | ? *\<close> and the control characters below 32. The space is safe.
\<close>

definition unsafe :: "char \<Rightarrow> bool" where
  "unsafe c =
     (c \<in> set [CHR ''<'', CHR ''>'', CHR '':'', CHR 0x22, CHR ''/'', CHR 0x5C,
                CHR ''|'', CHR ''?'', CHR ''*'']
      \<or> (of_char c :: nat) < 32)"

text \<open>The replacement of \<^verbatim>\<open>filenamify.Options{Replacement: "_"}\<close>.\<close>

definition replacement :: char where
  "replacement = CHR ''_''"

text \<open>
  Modelled from the spec: the sanitization of one atom by the external sanitizer
  (section 4.1, step 3), in three definitions that follow the spec's words.
  \<open>replace_runs\<close>: every one of the "maximal contiguous runs of unsafe characters" is
  "replaced by a single fixed replacement character".
\<close>

function replace_runs :: "string \<Rightarrow> string" where
  "replace_runs [] = []"
| "replace_runs (c # cs) =
     (if unsafe c then replacement # replace_runs (dropWhile unsafe cs)
      else c # replace_runs cs)"
  by pat_completeness auto
termination
  by (relation "measure length") (auto simp: less_Suc_eq_le length_dropWhile_le)

text \<open>
  Modelled from the spec: the edge stripping of the external sanitizer, "each such run
  at the start or end of the atom is removed entirely (not replaced)".
\<close>

definition strip_edges :: "string \<Rightarrow> string" where
  "strip_edges atom = rev (dropWhile unsafe (rev (dropWhile unsafe atom)))"

text \<open>
  Modelled from the spec: the external sanitizer on one atom. "An atom consisting only
  of unsafe characters sanitizes to the single replacement character"; otherwise the
  runs at the edges are removed and the runs strictly inside are replaced, so that
  "atoms containing no unsafe characters pass through unchanged".
\<close>

definition sanitize :: "string \<Rightarrow> string" where
  "sanitize atom =
     (if atom \<noteq> [] \<and> list_all unsafe atom then [replacement]
      else replace_runs (strip_edges atom))"

text \<open>
  Modelled from the spec: \<^verbatim>\<open>filenamify.Filenamify(elem, opts)\<close> in normal operation,
  where the spec expects no failure; it returns the sanitized atom and a nil error.
  What \<open>Join\<close> does when a sanitizer fails is covered by \<open>Join_with\<close> below, which takes
  the sanitizer as a parameter.
\<close>

definition Filenamify :: "string \<Rightarrow> string \<times> error option" where
  "Filenamify str = (sanitize str, None)"

subsection \<open>Join\<close>

text \<open>
  What a call of \<open>Join\<close> does: it panics (the index expression \<^verbatim>\<open>parts[0]\<close> on an empty
  slice), or it returns a path and an error, \<open>None\<close> being Go's \<^verbatim>\<open>nil\<close>.
\<close>

datatype outcome = Panic | Return string "error option"

text \<open>
  The inner loop, over the elements of one cleaned and split part: an empty element is
  skipped, a failing sanitizer ends the loop with its error, and otherwise the result is
  appended to \<open>namified\<close>.
\<close>

fun namify_elems ::
  "(string \<Rightarrow> string \<times> error option) \<Rightarrow> string list \<Rightarrow> string list \<Rightarrow> error + string list"
where
  "namify_elems san namified [] = Inr namified"
| "namify_elems san namified (elem # splitted) =
     (if elem = [] then namify_elems san namified splitted
      else case san elem of
             (fixed, Some err) \<Rightarrow> Inl err
           | (fixed, None) \<Rightarrow> namify_elems san (namified @ [fixed]) splitted)"

text \<open>The outer loop, over the parts: an empty part is skipped.\<close>

fun namify_parts ::
  "(string \<Rightarrow> string \<times> error option) \<Rightarrow> string list \<Rightarrow> string list \<Rightarrow> error + string list"
where
  "namify_parts san namified [] = Inr namified"
| "namify_parts san namified (part # parts) =
     (if part = [] then namify_parts san namified parts
      else case namify_elems san namified (Split (Clean part)) of
             Inl err \<Rightarrow> Inl err
           | Inr namified' \<Rightarrow> namify_parts san namified' parts)"

text \<open>\<open>Join\<close> with the sanitizer as a parameter.\<close>

definition Join_with ::
  "(string \<Rightarrow> string \<times> error option) \<Rightarrow> string list \<Rightarrow> outcome"
where
  "Join_with san parts =
     (case parts of
        [] \<Rightarrow> Panic
      | first # _ \<Rightarrow>
          let isAbs = IsAbs first in
          (case namify_parts san [] parts of
             Inl err \<Rightarrow> Return [] (Some err)
           | Inr namified \<Rightarrow>
               (let joined = filepath_Join namified in
                Return (if isAbs then Separator # joined else joined) None)))"

definition Join :: "string list \<Rightarrow> outcome" where
  "Join parts = Join_with Filenamify parts"

subsection \<open>Notions used to state the properties\<close>

text \<open>
  The elements that reach the sanitizer, in order: the non-empty elements of every
  non-empty part after cleaning and splitting.
\<close>

fun atoms_of :: "string list \<Rightarrow> string list" where
  "atoms_of [] = []"
| "atoms_of (part # parts) =
     (if part = [] then atoms_of parts
      else filter (\<lambda>elem. elem \<noteq> []) (Split (Clean part)) @ atoms_of parts)"

text \<open>A sanitizer fails on an atom when it returns a non-nil error.\<close>

definition failing :: "(string \<Rightarrow> string \<times> error option) \<Rightarrow> string \<Rightarrow> bool" where
  "failing san a = (snd (san a) \<noteq> None)"

text \<open>
  The shape of a path: two separators in a row, a separator at the end, and the
  components between the separators (after the leading separator of an absolute path).
\<close>

fun double_sep :: "string \<Rightarrow> bool" where
  "double_sep (a # b # cs) = ((a = Separator \<and> b = Separator) \<or> double_sep (b # cs))"
| "double_sep _ = False"

definition trailing_sep :: "string \<Rightarrow> bool" where
  "trailing_sep p = (p \<noteq> [] \<and> last p = Separator)"

definition components :: "string \<Rightarrow> string list" where
  "components p = Split (if IsAbs p then tl p else p)"

text \<open>Path elements that are not empty and hold no separator.\<close>

definition plain_elems :: "string list \<Rightarrow> bool" where
  "plain_elems cs = (\<forall>c\<in>set cs. c \<noteq> [] \<and> Separator \<notin> set c)"

text \<open>The second half of \<open>strip_edges\<close>: the run of unsafe characters at the end is removed.\<close>

definition strip_end :: "string \<Rightarrow> string" where
  "strip_end y = rev (dropWhile unsafe (rev y))"


section \<open>Properties of the library functions\<close>

lemma Split_not_Nil [simp]: "Split s \<noteq> []"
  by (induction s) auto

lemma Split_no_sep: "e \<in> set (Split s) \<Longrightarrow> Separator \<notin> set e"
proof (induction s arbitrary: e)
  case Nil
  then show ?case by simp
next
  case (Cons c cs)
  obtain w ws where sp: "Split cs = w # ws" by (cases "Split cs") auto
  from Cons.IH[of w] Cons.IH sp have w: "Separator \<notin> set w" and ws: "\<forall>x\<in>set ws. Separator \<notin> set x"
    by auto
  show ?case
  proof (cases "c = Separator")
    case True
    with Cons.prems sp w ws show ?thesis by auto
  next
    case False
    with Cons.prems sp w ws show ?thesis by auto
  qed
qed

lemma Split_chars: "e \<in> set (Split s) \<Longrightarrow> set e \<subseteq> set s"
proof (induction s arbitrary: e)
  case Nil
  then show ?case by simp
next
  case (Cons c cs)
  obtain w ws where sp: "Split cs = w # ws" by (cases "Split cs") auto
  from Cons.IH[of w] Cons.IH sp have w: "set w \<subseteq> set cs" and ws: "\<forall>x\<in>set ws. set x \<subseteq> set cs"
    by auto
  show ?case
  proof (cases "c = Separator")
    case True
    with Cons.prems sp w ws show ?thesis by auto
  next
    case False
    with Cons.prems sp w ws show ?thesis by auto
  qed
qed

lemma strings_Join_Cons:
  "strings_Join (e # es) = (if es = [] then e else e @ Separator # strings_Join es)"
  by (cases es) auto

lemma strings_Join_Split [simp]: "strings_Join (Split s) = s"
proof (induction s)
  case Nil
  then show ?case by simp
next
  case (Cons c cs)
  obtain w ws where sp: "Split cs = w # ws" by (cases "Split cs") auto
  with Cons show ?case by (auto simp: strings_Join_Cons split: if_splits)
qed

lemma Split_atom: "Separator \<notin> set e \<Longrightarrow> Split e = [e]"
  by (induction e) auto

lemma Split_append_sep:
  "Separator \<notin> set e \<Longrightarrow> Split (e @ Separator # s) = e # Split s"
  by (induction e) auto

lemma Split_strings_Join:
  "es \<noteq> [] \<Longrightarrow> \<forall>e\<in>set es. Separator \<notin> set e \<Longrightarrow> Split (strings_Join es) = es"
proof (induction es rule: strings_Join.induct)
  case 1
  then show ?case by simp
next
  case (2 e)
  then show ?case by (simp add: Split_atom)
next
  case (3 e v va)
  then show ?case by (simp add: Split_append_sep del: Split.simps)
qed

lemma clean_elems_subset: "set (clean_elems r out es) \<subseteq> set out \<union> set es"
proof (induction es arbitrary: out)
  case Nil
  then show ?case by simp
next
  case (Cons e es)
  show ?case
  proof (cases out)
    case Nil
    with Cons.IH[of "[]"] Cons.IH[of "[''..'']"] Cons.IH[of "[e]"] show ?thesis
      by (auto simp del: clean_elems.simps simp add: clean_elems.simps(2)[of r "[]" e es])
  next
    case (Cons t out')
    with Cons.IH[of out] Cons.IH[of "''..'' # out"] Cons.IH[of out'] Cons.IH[of "e # out"]
    show ?thesis
      by (auto simp del: clean_elems.simps simp add: clean_elems.simps(2)[of r "t # out'" e es])
  qed
qed

lemma clean_elems_no_empty:
  "[] \<notin> set out \<Longrightarrow> [] \<notin> set (clean_elems r out es)"
proof (induction es arbitrary: out)
  case Nil
  then show ?case by simp
next
  case (Cons e es)
  show ?case
  proof (cases out)
    case Nil
    with Cons.IH[of "[]"] Cons.IH[of "[''..'']"] Cons.IH[of "[e]"] show ?thesis
      by (auto simp del: clean_elems.simps simp add: clean_elems.simps(2)[of r "[]" e es])
  next
    case (Cons t out')
    with Cons.prems Cons.IH[of out] Cons.IH[of "''..'' # out"] Cons.IH[of out'] Cons.IH[of "e # out"]
    show ?thesis
      by (auto simp del: clean_elems.simps simp add: clean_elems.simps(2)[of r "t # out'" e es])
  qed
qed

lemma clean_elems_no_dot:
  "\<forall>e\<in>set es. CHR ''.'' \<notin> set e \<Longrightarrow>
   clean_elems r out es = rev out @ filter (\<lambda>e. e \<noteq> []) es"
proof (induction es arbitrary: out)
  case Nil
  then show ?case by simp
next
  case (Cons e es)
  then have "e \<noteq> ''.''" "e \<noteq> ''..''" by auto
  with Cons show ?case by simp
qed

lemma plain_elems_simps [simp]:
  "plain_elems []"
  "plain_elems (c # cs) = (c \<noteq> [] \<and> Separator \<notin> set c \<and> plain_elems cs)"
  by (auto simp: plain_elems_def)

lemma strings_Join_eq_Nil: "plain_elems cs \<Longrightarrow> strings_Join cs = [] \<longleftrightarrow> cs = []"
  by (cases cs) (auto simp: strings_Join_Cons)

lemma strings_Join_not_abs: "plain_elems cs \<Longrightarrow> \<not> IsAbs (strings_Join cs)"
proof (cases cs)
  case Nil
  then show ?thesis by (simp add: IsAbs_def)
next
  case (Cons c cs')
  assume "plain_elems cs"
  with Cons obtain a c' where "c = a # c'" "a \<noteq> Separator" by (cases c) auto
  with Cons show ?thesis by (simp add: IsAbs_def strings_Join_Cons)
qed

lemma strings_Join_last: "plain_elems cs \<Longrightarrow> cs \<noteq> [] \<Longrightarrow> last (strings_Join cs) \<noteq> Separator"
proof (induction cs rule: strings_Join.induct)
  case 1
  then show ?case by simp
next
  case (2 e)
  then have "e \<noteq> []" "Separator \<notin> set e" by simp_all
  then have "last e \<noteq> Separator" by (metis last_in_set)
  then show ?case by simp
next
  case (3 e v va)
  then have "strings_Join (v # va) \<noteq> []" using strings_Join_eq_Nil[of "v # va"] by simp
  with 3 show ?case by simp
qed

lemma strings_Join_chars:
  "set (strings_Join cs) \<subseteq> \<Union>(set ` set cs) \<union> {Separator}"
  by (induction cs rule: strings_Join.induct) auto

lemma double_sep_append:
  "e \<noteq> [] \<Longrightarrow> Separator \<notin> set e \<Longrightarrow> double_sep (e @ t) = double_sep t"
proof (induction e)
  case Nil
  then show ?case by simp
next
  case (Cons a e)
  show ?case
  proof (cases e)
    case Nil
    with Cons.prems show ?thesis by (cases t) auto
  next
    case (Cons b e')
    with Cons.prems Cons.IH show ?thesis by auto
  qed
qed

lemma double_sep_sep_Cons:
  "\<not> IsAbs s \<Longrightarrow> double_sep (Separator # s) = double_sep s"
  by (cases s) (auto simp: IsAbs_def)

lemma strings_Join_no_double_sep: "plain_elems cs \<Longrightarrow> \<not> double_sep (strings_Join cs)"
proof (induction cs rule: strings_Join.induct)
  case 1
  then show ?case by simp
next
  case (2 e)
  then show ?case using double_sep_append[of e "[]"] by simp
next
  case (3 e v va)
  then have "\<not> IsAbs (strings_Join (v # va))" using strings_Join_not_abs[of "v # va"] by simp
  with 3 show ?case by (simp add: double_sep_append double_sep_sep_Cons)
qed

lemma hd_Split_nonempty: "s \<noteq> [] \<Longrightarrow> \<not> IsAbs s \<Longrightarrow> hd (Split s) \<noteq> []"
  by (cases s) (auto simp: IsAbs_def)

lemma clean_elems_plain_elems:
  "plain_elems (clean_elems r [] (Split s))"
  unfolding plain_elems_def
proof
  fix c assume c: "c \<in> set (clean_elems r [] (Split s))"
  have "[] \<notin> set (clean_elems r [] (Split s))" by (rule clean_elems_no_empty) simp
  moreover from c have "c \<in> set (Split s)" using clean_elems_subset[of r "[]" "Split s"] by auto
  ultimately show "c \<noteq> [] \<and> Separator \<notin> set c" using c Split_no_sep by auto
qed

lemma clean_elems_chars:
  "c \<in> set (clean_elems r [] (Split s)) \<Longrightarrow> set c \<subseteq> set s"
  using clean_elems_subset[of r "[]" "Split s"] Split_chars[of c s] by auto

lemma relative_clean_empty_has_dot:
  assumes "s \<noteq> []" "\<not> IsAbs s" "clean_elems False [] (Split s) = []"
  shows "CHR ''.'' \<in> set s"
proof (rule ccontr)
  assume nd: "CHR ''.'' \<notin> set s"
  then have "\<forall>e\<in>set (Split s). CHR ''.'' \<notin> set e" using Split_chars by blast
  then have "clean_elems False [] (Split s) = filter (\<lambda>e. e \<noteq> []) (Split s)"
    using clean_elems_no_dot[of "Split s" False "[]"] by simp
  moreover have "hd (Split s) \<in> set (filter (\<lambda>e. e \<noteq> []) (Split s))"
    using hd_Split_nonempty[OF assms(1,2)] by simp
  ultimately show False using assms(3) by simp
qed

lemma Clean_form:
  assumes "s \<noteq> []"
  shows "\<exists>cs. Clean s = (if IsAbs s then [Separator] else []) @ strings_Join cs
              \<and> plain_elems cs \<and> (\<forall>c\<in>set cs. set c \<subseteq> set s) \<and> (\<not> IsAbs s \<longrightarrow> cs \<noteq> [])"
proof -
  let ?out = "clean_elems (IsAbs s) [] (Split s)"
  have pl: "plain_elems ?out" by (rule clean_elems_plain_elems)
  have ch: "\<forall>c\<in>set ?out. set c \<subseteq> set s" using clean_elems_chars by blast
  show ?thesis
  proof (cases "IsAbs s")
    case True
    with assms pl ch show ?thesis by (intro exI[of _ ?out]) (simp add: Clean_def Let_def)
  next
    case False
    show ?thesis
    proof (cases "?out = []")
      case True
      with False assms have "CHR ''.'' \<in> set s" using relative_clean_empty_has_dot by simp
      with True False assms show ?thesis
        by (intro exI[of _ "[''.'']"]) (simp add: Clean_def Let_def Separator_def)
    next
      case nonempty: False
      with False assms pl ch show ?thesis
        by (intro exI[of _ ?out]) (simp add: Clean_def Let_def)
    qed
  qed
qed

lemma filepath_Join_form:
  assumes "\<forall>n\<in>set ns. Separator \<notin> set n"
  shows "\<exists>cs. filepath_Join ns = strings_Join cs \<and> plain_elems cs
              \<and> (\<forall>c\<in>set cs. set c \<subseteq> \<Union>(set ` set ns))"
proof (cases "dropWhile (\<lambda>e. e = []) ns")
  case Nil
  have "filepath_Join ns = []" unfolding filepath_Join_def Nil by simp
  then show ?thesis by (intro exI[of _ "[]"]) simp
next
  case (Cons e es)
  let ?s = "strings_Join (e # es)"
  have sub: "set (e # es) \<subseteq> set ns" using set_dropWhileD[of _ "\<lambda>e. e = []" ns] Cons by auto
  have e: "e \<noteq> []" using hd_dropWhile[of "\<lambda>e. e = []" ns] Cons by auto
  from sub assms have "Separator \<notin> set e" by simp
  with e obtain a e' where ae: "e = a # e'" "a \<noteq> Separator" by (cases e) auto
  then have ne: "?s \<noteq> []" and rel: "\<not> IsAbs ?s" by (auto simp: strings_Join_Cons IsAbs_def)
  from Clean_form[OF ne] rel obtain cs where
    cs: "Clean ?s = strings_Join cs" "plain_elems cs" "\<forall>c\<in>set cs. set c \<subseteq> set ?s"
    by auto
  have "\<forall>c\<in>set cs. set c \<subseteq> \<Union>(set ` set ns)"
  proof
    fix c assume c: "c \<in> set cs"
    with cs have "set c \<subseteq> set ?s" "Separator \<notin> set c" by (auto simp: plain_elems_def)
    moreover have "set ?s \<subseteq> \<Union>(set ` set (e # es)) \<union> {Separator}" by (rule strings_Join_chars)
    ultimately show "set c \<subseteq> \<Union>(set ` set ns)" using sub by blast
  qed
  moreover have "filepath_Join ns = Clean ?s" unfolding filepath_Join_def using Cons by simp
  ultimately show ?thesis using cs by (intro exI[of _ cs]) simp
qed

lemma find_append_eq:
  "find P (xs @ ys) = (case find P xs of Some a \<Rightarrow> Some a | None \<Rightarrow> find P ys)"
  by (induction xs) auto

lemma namify_elems_eq:
  "namify_elems san namified splitted =
     (case find (failing san) (filter (\<lambda>elem. elem \<noteq> []) splitted) of
        Some a \<Rightarrow> Inl (the (snd (san a)))
      | None \<Rightarrow> Inr (namified @ map (\<lambda>a. fst (san a)) (filter (\<lambda>elem. elem \<noteq> []) splitted)))"
proof (induction splitted arbitrary: namified)
  case Nil
  then show ?case by simp
next
  case (Cons elem splitted)
  obtain fixed err where s: "san elem = (fixed, err)" by (cases "san elem")
  show ?case
  proof (cases "elem = []")
    case True
    with Cons show ?thesis by (simp split: option.splits)
  next
    case False
    with s Cons[of "namified @ [fixed]"] show ?thesis by (cases err) (simp_all add: failing_def split: option.splits)
  qed
qed

lemma namify_parts_eq:
  "namify_parts san namified parts =
     (case find (failing san) (atoms_of parts) of
        Some a \<Rightarrow> Inl (the (snd (san a)))
      | None \<Rightarrow> Inr (namified @ map (\<lambda>a. fst (san a)) (atoms_of parts)))"
proof (induction parts arbitrary: namified)
  case Nil
  then show ?case by simp
next
  case (Cons part parts)
  show ?case
  proof (cases "part = []")
    case True
    with Cons show ?thesis by (simp split: option.splits)
  next
    case False
    let ?as = "filter (\<lambda>elem. elem \<noteq> []) (Split (Clean part))"
    show ?thesis
    proof (cases "find (failing san) ?as")
      case None
      with False Cons[of "namified @ map (\<lambda>a. fst (san a)) ?as"] show ?thesis
        by (simp add: namify_elems_eq find_append_eq split: option.splits)
    next
      case (Some a)
      with False show ?thesis by (simp add: namify_elems_eq find_append_eq)
    qed
  qed
qed

lemma Join_with_eq:
  "Join_with san (first # rest) =
     (case find (failing san) (atoms_of (first # rest)) of
        Some a \<Rightarrow> Return [] (Some (the (snd (san a))))
      | None \<Rightarrow> Return ((if IsAbs first then [Separator] else [])
                          @ filepath_Join (map (\<lambda>a. fst (san a)) (atoms_of (first # rest)))) None)"
  unfolding Join_with_def namify_parts_eq
  by (cases "find (failing san) (atoms_of (first # rest))") (simp_all del: atoms_of.simps)

lemma Clean_chars: "s \<noteq> [] \<Longrightarrow> set (Clean s) \<subseteq> set s \<union> {Separator}"
proof -
  assume "s \<noteq> []"
  from Clean_form[OF this] obtain cs where
    cs: "Clean s = (if IsAbs s then [Separator] else []) @ strings_Join cs"
        "\<forall>c\<in>set cs. set c \<subseteq> set s" by blast
  have "set (strings_Join cs) \<subseteq> \<Union>(set ` set cs) \<union> {Separator}" by (rule strings_Join_chars)
  with cs show ?thesis by auto
qed

lemma atoms_of_props:
  "a \<in> set (atoms_of parts) \<Longrightarrow>
   a \<noteq> [] \<and> Separator \<notin> set a \<and> (\<exists>part\<in>set parts. set a \<subseteq> set part)"
proof (induction parts)
  case Nil
  then show ?case by simp
next
  case (Cons part parts)
  show ?case
  proof (cases "part \<noteq> [] \<and> a \<in> set (filter (\<lambda>elem. elem \<noteq> []) (Split (Clean part)))")
    case True
    then have a: "a \<noteq> []" "a \<in> set (Split (Clean part))" "part \<noteq> []" by simp_all
    then have ns: "Separator \<notin> set a" and "set a \<subseteq> set (Clean part)"
      using Split_no_sep Split_chars by blast+
    with Clean_chars[OF a(3)] have "set a \<subseteq> set part" by blast
    with a ns show ?thesis by simp
  next
    case False
    with Cons.prems have "a \<in> set (atoms_of parts)" by (auto split: if_splits)
    with Cons.IH show ?thesis by auto
  qed
qed

lemma Join_with_success:
  assumes "Join_with san parts = Return p None"
  obtains first rest where "parts = first # rest"
    and "\<forall>a\<in>set (atoms_of parts). snd (san a) = None"
    and "p = (if IsAbs first then [Separator] else [])
             @ filepath_Join (map (\<lambda>a. fst (san a)) (atoms_of parts))"
proof -
  from assms obtain first rest where pr: "parts = first # rest"
    by (cases parts) (auto simp: Join_with_def)
  show thesis
  proof (cases "find (failing san) (atoms_of parts)")
    case None
    then have "\<forall>a\<in>set (atoms_of parts). snd (san a) = None"
      by (auto simp: find_None_iff failing_def)
    moreover from None assms pr have
      "p = (if IsAbs first then [Separator] else [])
             @ filepath_Join (map (\<lambda>a. fst (san a)) (atoms_of parts))"
      by (simp add: Join_with_eq del: atoms_of.simps)
    ultimately show thesis using pr that by blast
  next
    case (Some a)
    with assms pr show thesis by (simp add: Join_with_eq del: atoms_of.simps)
  qed
qed

lemma replace_runs_chars:
  "c \<in> set (replace_runs s) \<Longrightarrow> c = replacement \<or> (c \<in> set s \<and> \<not> unsafe c)"
proof (induction s rule: replace_runs.induct)
  case 1
  then show ?case by simp
next
  case (2 d ds)
  show ?case
  proof (cases "unsafe d")
    case True
    with 2 have "c = replacement \<or> c \<in> set (replace_runs (dropWhile unsafe ds))" by simp
    with 2 True show ?thesis using set_dropWhileD[of c unsafe ds] by auto
  next
    case False
    with 2 show ?thesis by auto
  qed
qed

lemma strip_edges_subset: "set (strip_edges a) \<subseteq> set a"
proof
  fix c assume "c \<in> set (strip_edges a)"
  then have "c \<in> set (dropWhile unsafe (rev (dropWhile unsafe a)))" by (simp add: strip_edges_def)
  then have "c \<in> set (dropWhile unsafe a)" using set_dropWhileD by fastforce
  then show "c \<in> set a" by (rule set_dropWhileD)
qed

lemma sanitize_chars:
  "c \<in> set (sanitize a) \<Longrightarrow> c = replacement \<or> (c \<in> set a \<and> \<not> unsafe c)"
proof (cases "a \<noteq> [] \<and> list_all unsafe a")
  case True
  assume "c \<in> set (sanitize a)"
  with True show ?thesis by (simp add: sanitize_def)
next
  case False
  assume "c \<in> set (sanitize a)"
  with False have "c \<in> set (replace_runs (strip_edges a))" by (auto simp: sanitize_def)
  then show ?thesis using replace_runs_chars strip_edges_subset by blast
qed

lemma Filenamify_chars:
  "c \<in> set (fst (Filenamify a)) \<Longrightarrow> c = replacement \<or> (c \<in> set a \<and> \<not> unsafe c)"
  by (simp add: Filenamify_def sanitize_chars)

lemma Filenamify_no_sep:
  "Separator \<notin> set a \<Longrightarrow> Separator \<notin> set (fst (Filenamify a))"
  using Filenamify_chars[of Separator a] by (auto simp: replacement_def Separator_def)




lemma dropWhile_append_safe_last:
  assumes "x \<noteq> []" "\<not> unsafe (last x)"
  shows "dropWhile unsafe (x @ t) = dropWhile unsafe x @ t"
    and "dropWhile unsafe x \<noteq> []" and "last (dropWhile unsafe x) = last x"
proof -
  from assms have m: "last x \<in> set x" by simp
  with assms show "dropWhile unsafe (x @ t) = dropWhile unsafe x @ t"
    by (intro dropWhile_append1[of "last x"]) auto
  from m assms show ne: "dropWhile unsafe x \<noteq> []" by auto
  have "x = takeWhile unsafe x @ dropWhile unsafe x" by simp
  with ne show "last (dropWhile unsafe x) = last x" by (metis last_appendR)
qed

lemma strip_end_append_safe_hd:
  assumes "y \<noteq> []" "\<not> unsafe (hd y)"
  shows "strip_end (t @ y) = t @ strip_end y"
    and "strip_end y \<noteq> []" and "hd (strip_end y) = hd y"
proof -
  from assms have ry: "rev y \<noteq> []" "\<not> unsafe (last (rev y))" by (simp_all add: last_rev)
  from dropWhile_append_safe_last(1)[OF ry, of "rev t"]
  show "strip_end (t @ y) = t @ strip_end y" by (simp add: strip_end_def)
  from dropWhile_append_safe_last(2)[OF ry] show ne: "strip_end y \<noteq> []" by (simp add: strip_end_def)
  from dropWhile_append_safe_last(3)[OF ry] dropWhile_append_safe_last(2)[OF ry]
  show "hd (strip_end y) = hd y" by (simp add: strip_end_def hd_rev last_rev)
qed


lemma strip_edges_alt: "strip_edges a = strip_end (dropWhile unsafe a)"
  by (simp add: strip_edges_def strip_end_def)



lemma sanitize_nonempty: "a \<noteq> [] \<Longrightarrow> sanitize a \<noteq> []"
proof (cases "list_all unsafe a")
  case True
  assume "a \<noteq> []"
  with True show ?thesis by (simp add: sanitize_def)
next
  case False
  then have "dropWhile unsafe a \<noteq> []" by (simp add: list_all_iff)
  moreover then have "\<not> unsafe (hd (dropWhile unsafe a))" by (rule hd_dropWhile)
  ultimately have "strip_end (dropWhile unsafe a) \<noteq> []"
    by (rule strip_end_append_safe_hd(2))
  then have "replace_runs (strip_edges a) \<noteq> []"
    by (cases "strip_edges a") (simp_all add: strip_edges_alt)
  with False show ?thesis by (simp add: sanitize_def)
qed

lemma sanitize_no_sep: "Separator \<notin> set a \<Longrightarrow> Separator \<notin> set (sanitize a)"
  using sanitize_chars[of Separator a] by (auto simp: replacement_def Separator_def)

lemma Clean_atom:
  assumes "z \<noteq> []" "Separator \<notin> set z"
  shows "Clean z = z"
proof -
  from assms have "\<not> IsAbs z" by (cases z) (auto simp: IsAbs_def)
  moreover from assms have "Split z = [z]" by (simp add: Split_atom)
  ultimately show ?thesis using assms(1) by (simp add: Clean_def)
qed

lemma filepath_Join_atom:
  "z \<noteq> [] \<Longrightarrow> Separator \<notin> set z \<Longrightarrow> filepath_Join [z] = z"
  by (simp add: filepath_Join_def Clean_atom)

lemma not_failing_Filenamify [simp]: "\<not> failing Filenamify a"
  by (simp add: failing_def Filenamify_def)

lemma find_failing_Filenamify [simp]: "find (failing Filenamify) as = None"
  by (simp add: find_None_iff)

lemma Join_eq:
  "Join (first # rest) =
     Return ((if IsAbs first then [Separator] else [])
             @ filepath_Join (map sanitize (atoms_of (first # rest)))) None"
  by (simp add: Join_def Join_with_eq Filenamify_def del: atoms_of.simps)

lemma Join_atom:
  assumes "z \<noteq> []" "Separator \<notin> set z"
  shows "Join [z] = Return (sanitize z) None"
proof -
  from assms have "\<not> IsAbs z" by (cases z) (auto simp: IsAbs_def)
  moreover from assms have "atoms_of [z] = [z]" by (simp add: Clean_atom Split_atom)
  moreover from assms have "filepath_Join [sanitize z] = sanitize z"
    by (intro filepath_Join_atom sanitize_nonempty sanitize_no_sep)
  ultimately show ?thesis by (simp add: Join_eq del: atoms_of.simps)
qed







lemma Join_with_form:
  assumes san: "\<And>a c. c \<in> set (fst (san a)) \<Longrightarrow> c = replacement \<or> (c \<in> set a \<and> \<not> bad c)"
      and ok: "Join_with san parts = Return p None"
  obtains first rest cs where "parts = first # rest"
    and "p = (if IsAbs first then [Separator] else []) @ strings_Join cs"
    and "plain_elems cs"
    and "\<forall>c\<in>set cs. \<forall>ch\<in>set c. ch = replacement \<or> (\<not> bad ch \<and> (\<exists>part\<in>set parts. ch \<in> set part))"
proof -
  let ?ns = "map (\<lambda>a. fst (san a)) (atoms_of parts)"
  from ok obtain first rest where pr: "parts = first # rest"
    and p: "p = (if IsAbs first then [Separator] else []) @ filepath_Join ?ns"
    by (rule Join_with_success)
  have ns: "\<forall>n\<in>set ?ns. \<forall>ch\<in>set n. ch \<noteq> Separator \<and>
              (ch = replacement \<or> (\<not> bad ch \<and> (\<exists>part\<in>set parts. ch \<in> set part)))"
  proof (intro ballI)
    fix n ch assume "n \<in> set ?ns" and ch: "ch \<in> set n"
    then obtain a where a: "a \<in> set (atoms_of parts)" "n = fst (san a)" by auto
    from atoms_of_props[OF a(1)] obtain part where
      part: "Separator \<notin> set a" "part \<in> set parts" "set a \<subseteq> set part" by blast
    from san[of ch a] ch a have "ch = replacement \<or> (ch \<in> set a \<and> \<not> bad ch)" by simp
    with part show "ch \<noteq> Separator \<and>
        (ch = replacement \<or> (\<not> bad ch \<and> (\<exists>part\<in>set parts. ch \<in> set part)))"
      by (auto simp: replacement_def Separator_def)
  qed
  then have "\<forall>n\<in>set ?ns. Separator \<notin> set n" by blast
  from filepath_Join_form[OF this] obtain cs where
    cs: "filepath_Join ?ns = strings_Join cs" "plain_elems cs"
        "\<forall>c\<in>set cs. set c \<subseteq> \<Union>(set ` set ?ns)" by blast
  have "\<forall>c\<in>set cs. \<forall>ch\<in>set c.
          ch = replacement \<or> (\<not> bad ch \<and> (\<exists>part\<in>set parts. ch \<in> set part))"
  proof (intro ballI)
    fix c ch assume "c \<in> set cs" "ch \<in> set c"
    with cs(3) obtain n where "n \<in> set ?ns" "ch \<in> set n" by blast
    with ns show "ch = replacement \<or> (\<not> bad ch \<and> (\<exists>part\<in>set parts. ch \<in> set part))" by blast
  qed
  with pr p cs show thesis using that by simp
qed

lemma canonical_path_shape:
  assumes p: "p = (if rooted then [Separator] else []) @ strings_Join cs" and pl: "plain_elems cs"
  shows "\<not> double_sep p"
    and "p \<noteq> [Separator] \<Longrightarrow> \<not> trailing_sep p"
    and "p \<noteq> [] \<Longrightarrow> p \<noteq> [Separator] \<Longrightarrow> components p = cs"
proof -
  have na: "\<not> IsAbs (strings_Join cs)" using pl by (rule strings_Join_not_abs)
  have nd: "\<not> double_sep (strings_Join cs)" using pl by (rule strings_Join_no_double_sep)
  from p na nd show "\<not> double_sep p" by (simp add: double_sep_sep_Cons)
  have abs: "IsAbs p \<longleftrightarrow> rooted" using p na by (simp add: IsAbs_def)
  {
    assume "p \<noteq> [Separator]"
    show "\<not> trailing_sep p"
    proof (cases "cs = []")
      case True
      with p \<open>p \<noteq> [Separator]\<close> show ?thesis by (simp add: trailing_sep_def split: if_splits)
    next
      case False
      with pl have "strings_Join cs \<noteq> []" "last (strings_Join cs) \<noteq> Separator"
        using strings_Join_eq_Nil strings_Join_last by simp_all
      with p show ?thesis by (simp add: trailing_sep_def)
    qed
  }
  {
    assume "p \<noteq> []" "p \<noteq> [Separator]"
    with p have ne: "cs \<noteq> []" by (auto split: if_splits)
    from p abs have "(if IsAbs p then tl p else p) = strings_Join cs" by simp
    moreover from ne pl have "Split (strings_Join cs) = cs"
      by (intro Split_strings_Join) (simp_all add: plain_elems_def)
    ultimately show "components p = cs" by (simp add: components_def)
  }
qed









section \<open>The repository's test tables\<close>

text \<open>
  The model agrees with the expected values of the test suites of package
  \<^verbatim>\<open>fjoin_test\<close> (relative and absolute paths, empty components, extra slashes, and
  the peculiarities of the sanitizer).
\<close>

lemma test_relative:
  "Join [''a''] = Return ''a'' None"
  "Join [''a/b/''] = Return ''a/b'' None"
  "Join [''a'', ''b''] = Return ''a/b'' None"
  "Join [''a b''] = Return ''a b'' None"
  "Join [''a<b''] = Return ''a_b'' None"
  "Join [''ab<cd''] = Return ''ab_cd'' None"
  "Join [''<''] = Return ''_'' None"
  "Join [''</b''] = Return ''_/b'' None"
  "Join [''<'', ''>'', ''/</''] = Return ''_/_/_'' None"
  by code_simp+

lemma test_absolute:
  "Join [''/a''] = Return ''/a'' None"
  "Join [''/a/''] = Return ''/a'' None"
  "Join [''/a/b/''] = Return ''/a/b'' None"
  "Join [''//a/'', ''//b/''] = Return ''/a/b'' None"
  by code_simp+

lemma test_empty_components:
  "Join [''aA'', ''b''] = Return ''aA/b'' None"
  "Join [''aA'', [], ''b''] = Return ''aA/b'' None"
  "Join [''aA'', [], [], ''b''] = Return ''aA/b'' None"
  "Join [[], ''aA'', ''b''] = Return ''aA/b'' None"
  "Join [''aA'', ''b'', []] = Return ''aA/b'' None"
  "Join [[], [], ''aA'', [], [], ''b'', [], []] = Return ''aA/b'' None"
  by code_simp+

lemma test_extra_slashes:
  "Join [''a/A'', ''b'', ''/''] = Return ''a/A/b'' None"
  "Join [''a//A'', ''b'', ''/''] = Return ''a/A/b'' None"
  "Join [''a//A/'', ''/'', [], ''/b'', ''//'', ''/''] = Return ''a/A/b'' None"
  "Join [''/a/A'', ''b'', ''/''] = Return ''/a/A/b'' None"
  "Join [''/a/A'', ''/'', ''b''] = Return ''/a/A/b'' None"
  "Join [''/a/A'', ''b''] = Return ''/a/A/b'' None"
  "Join [''/'', ''a/A'', ''b''] = Return ''/a/A/b'' None"
  "Join [''//'', ''a/A'', ''b''] = Return ''/a/A/b'' None"
  "Join [''/a//A'', ''b'', ''/''] = Return ''/a/A/b'' None"
  "Join [''/a//A/'', ''/'', [], ''/b'', ''//'', ''/''] = Return ''/a/A/b'' None"
  by code_simp+

lemma test_peculiarities:
  "Join [''<b''] = Return ''b'' None"
  "Join [''b>''] = Return ''b'' None"
  "Join [''/<b''] = Return ''/b'' None"
  "Join [''a'', ''<b''] = Return ''a/b'' None"
  "Join [''a'', ''/<b''] = Return ''a/b'' None"
  "Join [''a<<b''] = Return ''a_b'' None"
  "Join [''<<b''] = Return ''b'' None"
  "Join [''/<<b''] = Return ''/b'' None"
  "Join [''a'', ''<<b''] = Return ''a/b'' None"
  "Join [''a'', ''/<<b''] = Return ''a/b'' None"
  by code_simp+

section \<open>The claims about Join\<close>

subsection \<open>Sanitization of one atom\<close>



text \<open>
  C2. An atom of unsafe characters only is sanitized to the single replacement
  character, not to the empty string: \<^verbatim>\<open>Join("<") = "_"\<close> and
  \<^verbatim>\<open>Join("<", ">", "/</") = "_/_/_"\<close>.
\<close>

theorem Join_all_unsafe_atom:
  assumes "a \<noteq> []" "list_all unsafe a" "Separator \<notin> set a"
  shows "Join [a] = Return [replacement] None
       \<and> Join [''<''] = Return ''_'' None
       \<and> Join [''<'', ''>'', ''/</''] = Return ''_/_/_'' None"
proof -
  from assms have "Join [a] = Return [replacement] None"
    by (simp add: Join_atom sanitize_def)
  moreover have "Join [''<''] = Return ''_'' None" by code_simp
  moreover have "Join [''<'', ''>'', ''/</''] = Return ''_/_/_'' None" by code_simp
  ultimately show ?thesis by blast
qed

theorem Join_all_unsafe_atom_witness:
  "Join [''<|>''] = Return ''_'' None"
proof -
  have h: "''<|>'' \<noteq> []" "list_all unsafe ''<|>''" "Separator \<notin> set ''<|>''"
    by code_simp+
  from Join_all_unsafe_atom[OF h] show ?thesis by (simp add: replacement_def)
qed

subsection \<open>The shape of the result\<close>

text \<open>
  C3. Whenever \<open>Join\<close> succeeds, the returned path has no doubled separator, no
  trailing separator unless it is the root path \<^verbatim>\<open>"/"\<close>, no empty component (the empty
  path and the root path have no component at all), and every character of it is the
  separator, the replacement character, or a character of the input that is not
  unsafe. This holds for \<open>Join\<close> over every sanitizer that returns only the replacement
  character and characters of its atom that are not unsafe, whatever the set of unsafe
  characters \<open>bad\<close> is.
\<close>

theorem Join_result_guarantee:
  assumes san: "\<And>a c. c \<in> set (fst (san a)) \<Longrightarrow> c = replacement \<or> (c \<in> set a \<and> \<not> bad c)"
      and ok: "Join_with san parts = Return p None"
  shows "\<not> double_sep p
       \<and> (p \<noteq> [Separator] \<longrightarrow> \<not> trailing_sep p)
       \<and> (p \<noteq> [] \<and> p \<noteq> [Separator] \<longrightarrow> [] \<notin> set (components p))
       \<and> (\<forall>ch\<in>set p. ch = Separator \<or> ch = replacement
                      \<or> (\<not> bad ch \<and> (\<exists>part\<in>set parts. ch \<in> set part)))"
proof -
  from san ok obtain first rest cs where
    pr: "parts = first # rest"
    and p: "p = (if IsAbs first then [Separator] else []) @ strings_Join cs"
    and pl: "plain_elems cs"
    and ch: "\<forall>c\<in>set cs. \<forall>ch\<in>set c. ch = replacement \<or> (\<not> bad ch \<and> (\<exists>part\<in>set parts. ch \<in> set part))"
    by (rule Join_with_form)
  note shape = canonical_path_shape[OF p pl]
  have "[] \<notin> set cs" using pl by (auto simp: plain_elems_def)
  with shape(3) have comp: "p \<noteq> [] \<and> p \<noteq> [Separator] \<longrightarrow> [] \<notin> set (components p)" by simp
  have "\<forall>ch\<in>set p. ch = Separator \<or> ch = replacement
                      \<or> (\<not> bad ch \<and> (\<exists>part\<in>set parts. ch \<in> set part))"
  proof
    fix c assume "c \<in> set p"
    with p have "c = Separator \<or> c \<in> set (strings_Join cs)" by (auto split: if_splits)
    then have "c = Separator \<or> (\<exists>e\<in>set cs. c \<in> set e)" using strings_Join_chars[of cs] by auto
    with ch show "c = Separator \<or> c = replacement
                      \<or> (\<not> bad c \<and> (\<exists>part\<in>set parts. c \<in> set part))" by blast
  qed
  with shape(1,2) comp show ?thesis by blast
qed

theorem Join_result_guarantee_witness:
  "Join_with Filenamify [''/a<b//c/'', ''<d>''] = Return ''/a_b/c/d'' None
   \<and> \<not> double_sep ''/a_b/c/d'' \<and> \<not> trailing_sep ''/a_b/c/d''
   \<and> [] \<notin> set (components ''/a_b/c/d'')"
proof -
  have run: "Join_with Filenamify [''/a<b//c/'', ''<d>''] = Return ''/a_b/c/d'' None"
    by code_simp
  have ne: "''/a_b/c/d'' \<noteq> [] \<and> ''/a_b/c/d'' \<noteq> [Separator]" by simp
  from Join_result_guarantee[of Filenamify unsafe, OF Filenamify_chars run] run ne
  show ?thesis by blast
qed

subsection \<open>Inputs with an empty first part, and no input at all\<close>

text \<open>
  C4. With no argument at all, \<open>Join\<close> evaluates \<^verbatim>\<open>parts[0]\<close> on an empty slice: the
  call panics instead of returning the empty string and a nil error.
\<close>

theorem Join_no_parts_panics: "Join [] = Panic"
  by (simp add: Join_def Join_with_def)

text \<open>
  C5. When \<open>Join\<close> succeeds on a non-empty input, the result begins with a separator
  exactly when the first part, as given, begins with one; the parts after the first
  have no influence on this, also when they look absolute:
  \<^verbatim>\<open>Join("a", "/<b") = "a/b"\<close>. This holds for \<open>Join\<close> over every sanitizer that puts
  no separator into an atom that has none.
\<close>

theorem Join_absolute_iff_first:
  assumes san: "\<And>a. Separator \<notin> set a \<Longrightarrow> Separator \<notin> set (fst (san a))"
      and ok: "Join_with san (first # rest) = Return p None"
  shows "(IsAbs p \<longleftrightarrow> IsAbs first) \<and> Join [''a'', ''/<b''] = Return ''a/b'' None"
proof -
  from ok have p: "p = (if IsAbs first then [Separator] else [])
             @ filepath_Join (map (\<lambda>a. fst (san a)) (atoms_of (first # rest)))"
    by (rule Join_with_success) simp
  have "\<forall>n\<in>set (map (\<lambda>a. fst (san a)) (atoms_of (first # rest))). Separator \<notin> set n"
  proof
    fix n assume "n \<in> set (map (\<lambda>a. fst (san a)) (atoms_of (first # rest)))"
    then obtain a where a: "a \<in> set (atoms_of (first # rest))" "n = fst (san a)"
      by (auto simp del: atoms_of.simps)
    from atoms_of_props[OF a(1)] have "Separator \<notin> set a" by simp
    with san a show "Separator \<notin> set n" by simp
  qed
  from filepath_Join_form[OF this] obtain cs where
    "filepath_Join (map (\<lambda>a. fst (san a)) (atoms_of (first # rest))) = strings_Join cs"
    "plain_elems cs" by blast
  then have "\<not> IsAbs (filepath_Join (map (\<lambda>a. fst (san a)) (atoms_of (first # rest))))"
    using strings_Join_not_abs by simp
  with p have "IsAbs p \<longleftrightarrow> IsAbs first" by (simp add: IsAbs_def)
  moreover have "Join [''a'', ''/<b''] = Return ''a/b'' None" by code_simp
  ultimately show ?thesis by simp
qed

theorem Join_absolute_iff_first_witness:
  "Join_with Filenamify [''a'', ''/<b''] = Return ''a/b'' None
   \<and> (IsAbs ''a/b'' \<longleftrightarrow> IsAbs ''a'')"
proof -
  have run: "Join_with Filenamify [''a'', ''/<b''] = Return ''a/b'' None" by code_simp
  from Join_absolute_iff_first[of Filenamify "''a''" "[''/<b'']" "''a/b''", OF Filenamify_no_sep run] run
  show ?thesis by blast
qed

text \<open>
  C6. The absoluteness of the result is read from the first part even when that part is
  empty: with an empty part in front of the absolute part \<^verbatim>\<open>"/a"\<close>, the first
  non-empty part is absolute and the result \<^verbatim>\<open>"a"\<close> has no leading separator.
\<close>

theorem Join_empty_then_absolute: "Join ['''', ''/a''] = Return ''a'' None"
  by code_simp

text \<open>
  C7. An empty part in front of an absolute first part changes the result, and so does
  removing the only, empty part: \<^verbatim>\<open>Join("", "/a") = "a"\<close> but \<^verbatim>\<open>Join("/a") = "/a"\<close>;
  \<^verbatim>\<open>Join("")\<close> returns the empty path but \<^verbatim>\<open>Join()\<close> panics.
\<close>

theorem Join_leading_empty_part_not_ignored:
  "Join ['''', ''/a''] = Return ''a'' None \<and> Join [''/a''] = Return ''/a'' None
   \<and> Join [''''] = Return [] None \<and> Join [] = Panic"
  by code_simp

subsection \<open>A failing sanitizer\<close>

text \<open>
  C8. \<open>Join\<close> over any sanitizer: whenever it returns a non-nil error, the returned path
  is empty and the error is the one the sanitizer returned for the first atom it failed
  on; and when the sanitizer fails on some atom of a non-empty input, \<open>Join\<close> returns
  the empty path with the error of the first such atom.
\<close>

theorem Join_with_error_propagated:
  "(\<forall>p err. Join_with san parts = Return p (Some err) \<longrightarrow>
       p = [] \<and> (\<exists>a. find (failing san) (atoms_of parts) = Some a \<and> snd (san a) = Some err))
   \<and> (\<forall>a. parts \<noteq> [] \<and> find (failing san) (atoms_of parts) = Some a \<longrightarrow>
         Join_with san parts = Return [] (snd (san a)))"
proof (cases parts)
  case Nil
  then show ?thesis by (simp add: Join_with_def)
next
  case (Cons first rest)
  show ?thesis
  proof (cases "find (failing san) (atoms_of parts)")
    case None
    with Cons show ?thesis by (simp add: Join_with_eq del: atoms_of.simps)
  next
    case (Some a)
    then have "failing san a" by (auto simp: find_Some_iff)
    then obtain e where "snd (san a) = Some e" by (auto simp: failing_def)
    with Some Cons show ?thesis by (simp add: Join_with_eq del: atoms_of.simps)
  qed
qed

theorem Join_with_error_propagated_witness:
  "Join_with (\<lambda>a. if a = ''x'' then (''junk'', Some (SanitizationError ''boom'')) else (a, None))
     [''a/x/b''] = Return [] (Some (SanitizationError ''boom''))"
proof -
  let ?san = "\<lambda>a. if a = ''x'' then (''junk'', Some (SanitizationError ''boom'')) else (a, None)"
  have f: "find (failing ?san) (atoms_of [''a/x/b'']) = Some ''x''"
    by code_simp
  have "[''a/x/b''] \<noteq> ([] :: string list)" by simp
  with f Join_with_error_propagated[of ?san "[''a/x/b'']"]
  have "Join_with ?san [''a/x/b''] = Return [] (snd (?san ''x''))" by blast
  then show ?thesis by simp
qed

subsection \<open>Joining a result again\<close>




end
